theory Spec2Isabelle
  imports Main "HOL-Library.Sublist"
begin

section \<open>Text\<close>

text \<open>
  A Python \<open>str\<close> is a sequence of Unicode code points; a code point is a natural
  number.  ASCII literals of the source are written \<open>str ''...''\<close>.
\<close>

type_synonym pystr = "nat list"

definition str :: "string \<Rightarrow> pystr" where
  "str s = map of_char s"

text \<open>
  The white space of \<open>str.strip()\<close> and \<open>str.isspace()\<close>: U+0009..U+000D,
  U+001C..U+0020, U+0085, U+00A0, U+1680, U+2000..U+200A, U+2028, U+2029, U+202F, U+205F
  and U+3000.
\<close>

definition isspace :: "nat \<Rightarrow> bool" where
  "isspace c \<longleftrightarrow>
     (9 \<le> c \<and> c \<le> 13) \<or> (28 \<le> c \<and> c \<le> 32) \<or> c = 133 \<or> c = 160 \<or> c = 5760 \<or>
     (8192 \<le> c \<and> c \<le> 8202) \<or> c = 8232 \<or> c = 8233 \<or> c = 8239 \<or> c = 8287 \<or> c = 12288"

definition strip :: "pystr \<Rightarrow> pystr" where
  "strip s = rev (dropWhile isspace (rev (dropWhile isspace s)))"

definition endswith :: "pystr \<Rightarrow> pystr \<Rightarrow> bool" where
  "endswith s suf \<longleftrightarrow>
     length suf \<le> length s \<and> drop (length s - length suf) s = suf"

text \<open>
  The slice \<open>s[:-n]\<close> for \<open>n > 0\<close>: everything but the last \<open>n\<close> code points, and
  the empty string when \<open>s\<close> is shorter than \<open>n\<close>.
\<close>

definition drop_last :: "nat \<Rightarrow> pystr \<Rightarrow> pystr" where
  "drop_last n s = take (length s - n) s"

text \<open>
  \<open>str.lower\<close> is a built-in and \<open>unidecode\<close> a third-party function; neither is
  part of the sources, so both are parameters of the model.  The name \<open>unidecode\<close> is
  bound only when the import at the head of the module succeeded.
\<close>

record py_env =
  lower :: "pystr \<Rightarrow> pystr"
  unidecode :: "(pystr \<Rightarrow> pystr) option"

section \<open>Data\<close>

definition SNOMED_SEMANTIC_TYPES :: "pystr list" where
  "SNOMED_SEMANTIC_TYPES = map str
    [''OWL metadata concept'',
     ''administration method'',
     ''assessment scale'',
     ''attribute'',
     ''basic dose form'',
     ''body structure'',
     ''cell structure'',
     ''cell'',
     ''clinical drug'',
     ''core metadata concept'',
     ''disorder'',
     ''disposition'',
     ''dose form'',
     ''environment / location'',
     ''environment'',
     ''ethnic group'',
     ''event'',
     ''finding'',
     ''foundation metadata concept'',
     ''geographic location'',
     ''inactive concept'',
     ''intended site'',
     ''life style'',
     ''link assertion'',
     ''linkage concept'',
     ''medicinal product form'',
     ''medicinal product'',
     ''metadata'',
     ''morphologic abnormality'',
     ''namespace concept'',
     ''navigational concept'',
     ''number'',
     ''observable entity'',
     ''occupation'',
     ''organism'',
     ''person'',
     ''physical force'',
     ''physical object'',
     ''procedure'',
     ''product name'',
     ''product'',
     ''qualifier value'',
     ''racial group'',
     ''record artifact'',
     ''regime/therapy'',
     ''release characteristic'',
     ''religion/philosophy'',
     ''role'',
     ''situation'',
     ''social concept'',
     ''special concept'',
     ''specimen'',
     ''staging scale'',
     ''staging scales'',
     ''state of matter'',
     ''substance'',
     ''supplier'',
     ''transformation'',
     ''tumor staging'',
     ''unit of presentation'']"

definition SNOMED_URI :: pystr where
  "SNOMED_URI = str ''http://snomed.info/sct''"

definition SYNONYM_CODE :: pystr where
  "SYNONYM_CODE = str ''900000000000013009''"

definition FSN_CODE :: pystr where
  "FSN_CODE = str ''900000000000003001''"

text \<open>
  A designation \<open>d\<close> of the expansion: \<open>use_system d\<close> is \<open>d['use']['system']\<close>,
  \<open>use_code d\<close> is \<open>d['use']['code']\<close>, \<open>val d\<close> is \<open>d['value']\<close>.
\<close>

record designation =
  use_system :: pystr
  use_code :: pystr
  val :: pystr

text \<open>
  A concept of the expansion.  The key \<open>designation\<close> may be missing, which is
  \<open>None\<close>; the other keys are read unconditionally.
\<close>

record concept =
  code :: pystr
  system :: pystr
  display :: pystr
  designation :: "designation list option"

record opts =
  semantic :: pystr
  lowercase :: bool
  normalize_unicode :: bool
  language :: pystr
  valueset_url :: pystr
  fhir_server :: pystr
  database_backend :: pystr

text \<open>The tuple \<open>(synonym, code, [semantic_type], is_preferred)\<close> that is yielded.\<close>

record extracted =
  r_term :: pystr
  r_cui :: pystr
  r_stys :: "pystr list"
  r_preferred :: bool

text \<open>
  What ends a run early: \<open>NameError\<close> and \<open>KeyError\<close> are the Python exceptions,
  \<open>RequestError\<close> is any exception of \<open>session.get\<close> or \<open>r.json()\<close>, and the last
  two are the two \<open>exit(1)\<close> of \<open>main\<close>, after \<open>Aborting.\<close> and after the message that
  \<open>unidecode\<close> is needed.
\<close>

datatype error = NameError | KeyError | RequestError | Aborting | UnidecodeNeeded

section \<open>process_concept\<close>

text \<open>
  The set \<open>synonyms\<close> is kept as a list without repetitions, in the order of first
  insertion.  Python leaves the iteration order of a set open; the statements below speak
  of the records emitted, never of their order inside one concept.
\<close>

definition set_add :: "pystr \<Rightarrow> pystr list \<Rightarrow> pystr list" where
  "set_add s synonyms = (if s \<in> set synonyms then synonyms else synonyms @ [s])"

text \<open>The loop over \<open>SNOMED_SEMANTIC_TYPES\<close>, left at the first match.\<close>

fun scan_types :: "pystr \<Rightarrow> pystr list \<Rightarrow> pystr option" where
  "scan_types v [] = None"
| "scan_types v (ty # tys) =
     (if endswith v (str ''('' @ ty @ str '')'') then Some ty else scan_types v tys)"

text \<open>The body of the loop over the designations, on the pair of the two variables it assigns.\<close>

fun designation_step ::
  "pystr \<Rightarrow> pystr list \<times> pystr \<Rightarrow> designation \<Rightarrow> pystr list \<times> pystr" where
  "designation_step sys (synonyms, semantic_type) d =
     (if use_system d = SNOMED_URI then
        if use_code d = SYNONYM_CODE then
          (set_add (strip (val d)) synonyms, semantic_type)
        else if use_code d = FSN_CODE then
          if sys = SNOMED_URI then
            (case scan_types (val d) SNOMED_SEMANTIC_TYPES of
               Some ty \<Rightarrow> (set_add (strip (drop_last (length ty + 2) (val d))) synonyms, ty)
             | None \<Rightarrow> (synonyms, semantic_type))
          else (set_add (strip (val d)) synonyms, semantic_type)
        else (synonyms, semantic_type)
      else (synonyms, semantic_type))"

definition designations :: "concept \<Rightarrow> designation list" where
  "designations c = (case designation c of None \<Rightarrow> [] | Some ds \<Rightarrow> ds)"

definition collect :: "opts \<Rightarrow> concept \<Rightarrow> pystr list \<times> pystr" where
  "collect os c =
     foldl (designation_step (system c)) ([strip (display c)], semantic os) (designations c)"

text \<open>
  The two assignments to \<open>synonym\<close> at the head of the output loop.  Calling
  \<open>unidecode\<close> while the name is unbound raises \<open>NameError\<close>.
\<close>

definition normalize :: "py_env \<Rightarrow> opts \<Rightarrow> pystr \<Rightarrow> error + pystr" where
  "normalize E os synonym =
     (let s1 = (if lowercase os then lower E synonym else synonym)
      in if normalize_unicode os
         then (case unidecode E of None \<Rightarrow> Inl NameError | Some u \<Rightarrow> Inr (u s1))
         else Inr s1)"

text \<open>
  The output loop.  Whether \<open>normalize\<close> raises does not depend on the synonym, so an
  error is raised before the first record or not at all.
\<close>

fun emit :: "py_env \<Rightarrow> opts \<Rightarrow> pystr \<Rightarrow> pystr \<Rightarrow> pystr \<Rightarrow> pystr list \<Rightarrow> error + extracted list" where
  "emit E os cd semantic_type preferred_name [] = Inr []"
| "emit E os cd semantic_type preferred_name (synonym # rest) =
     (case normalize E os synonym of
        Inl e \<Rightarrow> Inl e
      | Inr s \<Rightarrow>
         (case emit E os cd semantic_type preferred_name rest of
            Inl e \<Rightarrow> Inl e
          | Inr rs \<Rightarrow>
              Inr (\<lparr>r_term = s, r_cui = cd, r_stys = [semantic_type],
                    r_preferred = (s = preferred_name)\<rparr> # rs)))"

definition process_concept :: "py_env \<Rightarrow> opts \<Rightarrow> concept \<Rightarrow> error + extracted list" where
  "process_concept E os c =
     (case collect os c of
        (synonyms, semantic_type) \<Rightarrow>
          emit E os (code c) semantic_type (strip (display c)) synonyms)"

section \<open>extract_from_fhir\<close>

definition FHIR_LANGUAGES :: "(string \<times> string) list" where
  "FHIR_LANGUAGES =
    [(''BAQ'', ''eu''), (''CHI'', ''zh''), (''CZE'', ''cs''), (''DAN'', ''da''), (''DUT'', ''nl''),
     (''ENG'', ''en''), (''EST'', ''et''), (''FIN'', ''fi''), (''FRE'', ''fr''), (''GER'', ''de''),
     (''GRE'', ''el''), (''HEB'', ''he''), (''HUN'', ''hu''), (''ITA'', ''it''), (''JPN'', ''ja''),
     (''KOR'', ''ko''), (''LAV'', ''lv''), (''NOR'', ''no''), (''POL'', ''pl''), (''POR'', ''pt''),
     (''RUS'', ''ru''), (''SCR'', ''hr''), (''SPA'', ''es''), (''SWE'', ''sv''), (''TUR'', ''tr'')]"

definition fhir_lang :: "opts \<Rightarrow> pystr" where
  "fhir_lang os =
     (case map_of (map (\<lambda>(k, v). (str k, str v)) FHIR_LANGUAGES) (language os) of
        Some l \<Rightarrow> l
      | None \<Rightarrow> str ''en'')"

definition count :: int where
  "count = 100"

record request =
  request_url :: pystr
  p_count :: int
  p_offset :: int
  p_displayLanguage :: pystr
  p_includeDesignations :: pystr
  p_activeOnly :: pystr
  p_url :: pystr

definition request_params :: "opts \<Rightarrow> int \<Rightarrow> request" where
  "request_params os offset =
     \<lparr>request_url =
        fhir_server os @ (if endswith (fhir_server os) (str ''/'') then [] else str ''/'')
          @ str ''ValueSet/$expand?'',
      p_count = count,
      p_offset = offset,
      p_displayLanguage = fhir_lang os,
      p_includeDesignations = str ''true'',
      p_activeOnly = str ''true'',
      p_url = valueset_url os\<rparr>"

text \<open>
  The object \<open>result_json['expansion']\<close>.  The key \<open>contains\<close> is read on every page,
  \<open>total\<close> on the first page only and after its concepts, so \<open>total\<close> may be missing.
\<close>

record page =
  contains :: "concept list"
  total :: "int option"

text \<open>
  The terminology server answers a request with a page, or the request fails
  (\<open>session.get\<close> or \<open>r.json()\<close> raises, or \<open>expansion\<close> or \<open>contains\<close> is missing).
  One run never repeats a request, so a function of the request covers every server.
\<close>

type_synonym server = "request \<Rightarrow> error + page"

text \<open>
  What a run of the generator does: the requests it sends, the concepts it hands to
  \<open>process_concept\<close>, the records it yields, and the exception that ends it, if any.
\<close>

record trace =
  requests :: "request list"
  concepts :: "concept list"
  emitted :: "extracted list"
  raised :: "error option"

definition no_trace :: trace where
  "no_trace = \<lparr>requests = [], concepts = [], emitted = [], raised = None\<rparr>"

text \<open>The loop \<open>for concept in contains: yield from process_concept(concept, opts)\<close>.\<close>

fun process_page :: "py_env \<Rightarrow> opts \<Rightarrow> concept list \<Rightarrow> trace \<Rightarrow> trace" where
  "process_page E os [] t = t"
| "process_page E os (c # cs) t =
     (case process_concept E os c of
        Inl e \<Rightarrow> t\<lparr>concepts := concepts t @ [c], raised := Some e\<rparr>
      | Inr rs \<Rightarrow>
          process_page E os cs (t\<lparr>concepts := concepts t @ [c], emitted := emitted t @ rs\<rparr>))"

text \<open>One request and the processing of its page; the source has this block twice.\<close>

definition fetch_page :: "py_env \<Rightarrow> server \<Rightarrow> opts \<Rightarrow> int \<Rightarrow> trace \<Rightarrow> trace \<times> page option" where
  "fetch_page E srv os offset t =
     (let rq = request_params os offset;
          t1 = t\<lparr>requests := requests t @ [rq]\<rparr>
      in case srv rq of
           Inl e \<Rightarrow> (t1\<lparr>raised := Some e\<rparr>, None)
         | Inr pg \<Rightarrow> (process_page E os (contains pg) t1, Some pg))"

function page_loop :: "py_env \<Rightarrow> server \<Rightarrow> opts \<Rightarrow> int \<Rightarrow> int \<Rightarrow> trace \<Rightarrow> trace" where
  "page_loop E srv os number_found offset t =
     (if offset < number_found then
        (let t1 = fst (fetch_page E srv os offset t)
         in if raised t1 = None
            then page_loop E srv os number_found (offset + count) t1
            else t1)
      else t)"
  by pat_completeness auto
termination
  by (relation "measure (\<lambda>(E, srv, os, number_found, offset, t). nat (number_found - offset))")
     (auto simp: count_def)

definition extract_from_fhir :: "py_env \<Rightarrow> server \<Rightarrow> opts \<Rightarrow> trace" where
  "extract_from_fhir E srv os =
     (case fetch_page E srv os 0 no_trace of
        (t1, None) \<Rightarrow> t1
      | (t1, Some pg) \<Rightarrow>
          if raised t1 = None then
            (case total pg of
               None \<Rightarrow> t1\<lparr>raised := Some KeyError\<rparr>
             | Some number_found \<Rightarrow> page_loop E srv os number_found (0 + count) t1)
          else t1)"

section \<open>parse_and_encode_ngrams\<close>

text \<open>
  Modelled from the spec: the two stores, \<open>SimstringDBWriter\<close> and \<open>CuiSemTypesDB\<close> of
  \<open>quickumls.toolbox\<close>, which is not among the sources.  Both are write-only while the
  indexes are built, one \<open>insert\<close> per call, so each store is the sequence of the
  arguments of its \<open>insert\<close> calls.
\<close>

record stores =
  ss_db :: "pystr list"
  cuisty_db :: "extracted list"
  simstring_terms :: "pystr set"

definition no_stores :: stores where
  "no_stores = \<lparr>ss_db = [], cuisty_db = [], simstring_terms = {}\<rparr>"

text \<open>The body of the loop over the records.\<close>

definition insert_record :: "stores \<Rightarrow> extracted \<Rightarrow> stores" where
  "insert_record s r =
     (let s1 = (if r_term r \<notin> simstring_terms s
                then s\<lparr>ss_db := ss_db s @ [r_term r],
                       simstring_terms := insert (r_term r) (simstring_terms s)\<rparr>
                else s)
      in s1\<lparr>cuisty_db := cuisty_db s1 @ [r]\<rparr>)"

definition parse_and_encode_ngrams :: "extracted list \<Rightarrow> stores" where
  "parse_and_encode_ngrams extracted_it = foldl insert_record no_stores extracted_it"

section \<open>main\<close>

text \<open>
  The destination directory as \<open>main\<close> finds it, and the line typed at the prompt; a run
  prompts at most once, since a directory it has just created is empty.
\<close>

record destination =
  dest_exists :: bool
  dest_nonempty :: bool
  answer :: pystr

definition confirmed :: "py_env \<Rightarrow> pystr \<Rightarrow> bool" where
  "confirmed E line \<longleftrightarrow> strip (lower E line) = str ''y''"

text \<open>The two prompts; \<open>False\<close> is \<open>Aborting.\<close> followed by \<open>exit(1)\<close>.\<close>

definition prepare_destination :: "py_env \<Rightarrow> destination \<Rightarrow> bool" where
  "prepare_destination E D =
     (if \<not> dest_exists D then confirmed E (answer D)
      else if dest_nonempty D then confirmed E (answer D)
      else True)"

text \<open>
  What a run leaves behind: how it ended, the flag files written (name and content), the
  trace of the generator and the two stores.
\<close>

record run =
  status :: "error option"
  flag_files :: "(pystr \<times> pystr) list"
  pipeline :: trace
  index :: stores

definition flags_written :: "opts \<Rightarrow> (pystr \<times> pystr) list" where
  "flags_written os =
     (if normalize_unicode os then [(str ''normalize-unicode.flag'', [])] else [])
     @ (if lowercase os then [(str ''lowercase.flag'', [])] else [])
     @ [(str ''language.flag'', language os),
        (str ''database_backend.flag'', database_backend os)]"

text \<open>
  \<open>install_spacy\<close> and the messages printed are left out.  The generator is consumed by
  \<open>parse_and_encode_ngrams\<close>, so the records it yields before an exception are inserted.
\<close>

definition main :: "py_env \<Rightarrow> server \<Rightarrow> destination \<Rightarrow> opts \<Rightarrow> run" where
  "main E srv D os =
     (if \<not> prepare_destination E D then
        \<lparr>status = Some Aborting, flag_files = [], pipeline = no_trace, index = no_stores\<rparr>
      else if normalize_unicode os \<and> unidecode E = None then
        \<lparr>status = Some UnidecodeNeeded, flag_files = [], pipeline = no_trace, index = no_stores\<rparr>
      else
        (let t = extract_from_fhir E srv os
         in \<lparr>status = raised t, flag_files = flags_written os, pipeline = t,
             index = parse_and_encode_ngrams (emitted t)\<rparr>))"

section \<open>Concrete surroundings for the examples\<close>

text \<open>
  \<open>str.lower\<close> on text whose cased characters are all ASCII.
\<close>

definition lower_ascii :: "pystr \<Rightarrow> pystr" where
  "lower_ascii s = map (\<lambda>c. if 65 \<le> c \<and> c \<le> 90 then c + 32 else c) s"

text \<open>
  A fragment of the table of the \<open>unidecode\<close> package: ASCII is left as it is and
  U+5317 becomes \<open>Bei\<close> followed by a space, as in the package's own example; any other
  code point is outside the fragment and is dropped here.
\<close>

definition unidecode_fragment :: "pystr \<Rightarrow> pystr" where
  "unidecode_fragment s =
     concat (map (\<lambda>c. if c < 128 then [c] else if c = 21271 then str ''Bei '' else []) s)"

definition with_unidecode :: py_env where
  "with_unidecode = \<lparr>lower = lower_ascii, unidecode = Some unidecode_fragment\<rparr>"

definition without_unidecode :: py_env where
  "without_unidecode = \<lparr>lower = lower_ascii, unidecode = None\<rparr>"

definition options :: "bool \<Rightarrow> bool \<Rightarrow> opts" where
  "options lc nu =
     \<lparr>semantic = str ''UNKNOWN'', lowercase = lc, normalize_unicode = nu,
      language = str ''ENG'', valueset_url = str ''http://snomed.info/sct?fhir_vs'',
      fhir_server = str ''https://tx.ontoserver.csiro.au/fhir'',
      database_backend = str ''unqlite''\<rparr>"

definition snomed_concept :: "string \<Rightarrow> string \<Rightarrow> designation list option \<Rightarrow> concept" where
  "snomed_concept cd name ds =
     \<lparr>code = str cd, system = SNOMED_URI, display = str name, designation = ds\<rparr>"

definition other_concept :: "string \<Rightarrow> string \<Rightarrow> designation list option \<Rightarrow> concept" where
  "other_concept cd name ds =
     \<lparr>code = str cd, system = str ''http://loinc.org'', display = str name, designation = ds\<rparr>"

definition synonym_of :: "string \<Rightarrow> designation" where
  "synonym_of v = \<lparr>use_system = SNOMED_URI, use_code = SYNONYM_CODE, val = str v\<rparr>"

definition fsn_of :: "string \<Rightarrow> designation" where
  "fsn_of v = \<lparr>use_system = SNOMED_URI, use_code = FSN_CODE, val = str v\<rparr>"

definition foreign_of :: "string \<Rightarrow> designation" where
  "foreign_of v =
     \<lparr>use_system = str ''http://terminology.hl7.org/CodeSystem/designation-usage'',
      use_code = str ''display'', val = str v\<rparr>"

definition rec :: "string \<Rightarrow> string \<Rightarrow> string \<Rightarrow> bool \<Rightarrow> extracted" where
  "rec t cd ty p = \<lparr>r_term = str t, r_cui = str cd, r_stys = [str ty], r_preferred = p\<rparr>"

definition prepared :: destination where
  "prepared = \<lparr>dest_exists = True, dest_nonempty = False, answer = []\<rparr>"

text \<open>A server with 250 concepts that answers each request with its window of them.\<close>

definition numbered :: "nat \<Rightarrow> concept" where
  "numbered i = \<lparr>code = [i], system = SNOMED_URI, display = str ''Flu'', designation = None\<rparr>"

definition server_250 :: server where
  "server_250 rq =
     Inr \<lparr>contains = map numbered [nat (p_offset rq) ..< min (nat (p_offset rq + p_count rq)) 250],
          total = Some 250\<rparr>"

text \<open>A concept with two fully specified names of different semantic types.\<close>

definition two_names :: concept where
  "two_names = snomed_concept ''22298006'' ''Heart attack''
     (Some [fsn_of ''Myocardial infarction (disorder)'', fsn_of ''Chest pain (finding)''])"

section \<open>Notions used in the statements\<close>

text \<open>The output loop of \<open>process_concept\<close> can call \<open>unidecode\<close>.\<close>

definition unidecode_ok :: "py_env \<Rightarrow> opts \<Rightarrow> bool" where
  "unidecode_ok E os \<longleftrightarrow> (normalize_unicode os \<longrightarrow> unidecode E \<noteq> None)"

text \<open>
  The semantic type that the loop over the designations recovers from one designation of a
  SNOMED concept: the designation is a fully specified name of the SNOMED metadata
  system and the scan of the vocabulary finds a type.
\<close>

definition recovered_type :: "designation \<Rightarrow> pystr option" where
  "recovered_type d =
     (if use_system d = SNOMED_URI \<and> use_code d = FSN_CODE
      then scan_types (val d) SNOMED_SEMANTIC_TYPES
      else None)"

text \<open>
  The offsets at which the \<open>while\<close> loop of \<open>extract_from_fhir\<close> sends a request when
  nothing fails, from the value of \<open>offset\<close> on entry.
\<close>

function offsets_from :: "int \<Rightarrow> int \<Rightarrow> int list" where
  "offsets_from number_found offset =
     (if offset < number_found
      then offset # offsets_from number_found (offset + count)
      else [])"
  by pat_completeness auto
termination
  by (relation "measure (\<lambda>(number_found, offset). nat (number_found - offset))")
     (auto simp: count_def)

section \<open>Facts about text\<close>

lemma endswith_suffix: "endswith s suf \<longleftrightarrow> suffix suf s"
proof
  assume "endswith s suf"
  then have "s = take (length s - length suf) s @ suf"
    by (metis append_take_drop_id endswith_def)
  then show "suffix suf s" by (metis suffixI)
next
  assume "suffix suf s"
  then obtain zs where "s = zs @ suf" by (auto simp: suffix_def)
  then show "endswith s suf" by (simp add: endswith_def)
qed

lemma strip_append_space: "isspace c \<Longrightarrow> strip (xs @ [c]) = strip xs"
proof (cases "\<forall>x\<in>set xs. isspace x")
  case True
  assume "isspace c"
  have nil: "dropWhile isspace ys = []" if "\<forall>y\<in>set ys. isspace y" for ys
    using that by (induction ys) auto
  have "dropWhile isspace xs = []"
    by (rule nil) (use True in blast)
  moreover have "dropWhile isspace (xs @ [c]) = []"
    by (rule nil) (use True \<open>isspace c\<close> in auto)
  ultimately show ?thesis by (simp only: strip_def)
next
  case False
  assume c: "isspace c"
  from False obtain x where "x \<in> set xs" "\<not> isspace x" by blast
  then have "dropWhile isspace (xs @ [c]) = dropWhile isspace xs @ [c]"
    by (rule dropWhile_append1)
  with c show ?thesis by (simp add: strip_def)
qed

lemma vocab_no_paren: "ty \<in> set SNOMED_SEMANTIC_TYPES \<Longrightarrow> 40 \<notin> set ty"
  by (auto simp: SNOMED_SEMANTIC_TYPES_def str_def)

lemma paren_suffix_unique:
  fixes a b v :: "nat list"
  assumes "suffix (40 # a @ [41]) v" "suffix (40 # b @ [41]) v" "40 \<notin> set a" "40 \<notin> set b"
  shows "a = b"
proof -
  have aux: "x = y" if "suffix (40 # x @ [41]) (40 # y @ [41])" "(40::nat) \<notin> set y" for x y :: "nat list"
  proof -
    from that(1) obtain zs where zs: "40 # y @ [41] = zs @ 40 # x @ [41]" by (auto simp: suffix_def)
    show ?thesis
    proof (cases zs)
      case Nil with zs show ?thesis by simp
    next
      case (Cons z zs')
      with zs have "y @ [41] = zs' @ 40 # x @ [41]" by simp
      then have "(40::nat) \<in> set (y @ [41])" by (metis in_set_conv_decomp)
      with that(2) show ?thesis by simp
    qed
  qed
  from suffix_same_cases[OF assms(1,2)] show ?thesis
    using aux[of a b] aux[of b a] assms(3,4) by auto
qed

lemma scan_types_Some: "scan_types v tys = Some ty \<Longrightarrow> ty \<in> set tys \<and> endswith v (str ''('' @ ty @ str '')'')"
  by (induction tys) (auto split: if_splits)

lemma scan_types_None: "scan_types v tys = None \<longleftrightarrow> (\<forall>ty\<in>set tys. \<not> endswith v (str ''('' @ ty @ str '')''))"
  by (induction tys) auto

lemma scan_types_suffix:
  assumes "ty \<in> set SNOMED_SEMANTIC_TYPES" "endswith v (str ''('' @ ty @ str '')'')"
  shows "scan_types v SNOMED_SEMANTIC_TYPES = Some ty"
proof (cases "scan_types v SNOMED_SEMANTIC_TYPES")
  case None
  with assms show ?thesis by (simp add: scan_types_None)
next
  case (Some ty')
  then have 1: "ty' \<in> set SNOMED_SEMANTIC_TYPES" "endswith v (str ''('' @ ty' @ str '')'')"
    by (auto dest: scan_types_Some)
  have "ty' = ty"
    using paren_suffix_unique[of ty' v ty] 1 assms vocab_no_paren
    by (simp add: endswith_suffix str_def)
  with Some show ?thesis by simp
qed

lemma drop_last_suffix:
  "drop_last (length ty + 2) (x @ str '' ('' @ ty @ str '')'') = x @ [32]"
  by (simp add: drop_last_def str_def)

lemma spec_suffix_recognised:
  assumes "ty \<in> set SNOMED_SEMANTIC_TYPES"
  shows "scan_types (x @ str '' ('' @ ty @ str '')'') SNOMED_SEMANTIC_TYPES = Some ty"
proof -
  have "endswith (x @ str '' ('' @ ty @ str '')'') (str ''('' @ ty @ str '')'')"
    by (simp add: endswith_suffix suffix_def str_def)
  with assms show ?thesis by (rule scan_types_suffix)
qed

section \<open>Rules for evaluating the examples\<close>

lemmas text_eval = str_def strip_def isspace_def endswith_def drop_last_def lower_ascii_def
  unidecode_fragment_def
lemmas data_eval = SNOMED_URI_def SYNONYM_CODE_def FSN_CODE_def SNOMED_SEMANTIC_TYPES_def
  snomed_concept_def other_concept_def synonym_of_def fsn_of_def foreign_of_def rec_def
  options_def with_unidecode_def without_unidecode_def
lemmas concept_eval = process_concept_def collect_def designations_def set_add_def normalize_def

section \<open>Facts about process_concept\<close>

lemma normalize_ok: "unidecode_ok E os \<Longrightarrow> \<exists>t. normalize E os s = Inr t"
  by (auto simp: normalize_def unidecode_ok_def Let_def)

lemma normalize_plain: "\<not> lowercase os \<Longrightarrow> \<not> normalize_unicode os \<Longrightarrow> normalize E os s = Inr s"
  by (simp add: normalize_def)

lemma emit_ok:
  assumes "unidecode_ok E os"
  shows "emit E os cd ty pref syns =
    Inr (map (\<lambda>s. \<lparr>r_term = projr (normalize E os s), r_cui = cd, r_stys = [ty],
                    r_preferred = (projr (normalize E os s) = pref)\<rparr>) syns)"
proof (induction syns)
  case Nil
  show ?case by simp
next
  case (Cons s syns)
  from normalize_ok[OF assms] obtain t where "normalize E os s = Inr t" by blast
  with Cons show ?case by simp
qed

lemma process_concept_ok:
  assumes "unidecode_ok E os"
  shows "process_concept E os c =
    Inr (map (\<lambda>s. \<lparr>r_term = projr (normalize E os s), r_cui = code c, r_stys = [snd (collect os c)],
                    r_preferred = (projr (normalize E os s) = strip (display c))\<rparr>) (fst (collect os c)))"
  by (simp add: process_concept_def emit_ok[OF assms] split: prod.split)

lemma codes_differ: "FSN_CODE \<noteq> SYNONYM_CODE"
  by (simp add: FSN_CODE_def SYNONYM_CODE_def str_def)

lemma step_type:
  "snd (designation_step SNOMED_URI acc d) = (case recovered_type d of None \<Rightarrow> snd acc | Some ty \<Rightarrow> ty)"
  using codes_differ by (cases acc) (auto simp: recovered_type_def split: option.splits)

lemma foldl_type:
  "snd (foldl (designation_step SNOMED_URI) acc ds) = last (snd acc # List.map_filter recovered_type ds)"
proof (induction ds rule: rev_induct)
  case Nil
  show ?case by (simp add: List.map_filter_def)
next
  case (snoc d ds)
  have "List.map_filter recovered_type (ds @ [d]) =
      List.map_filter recovered_type ds @ (case recovered_type d of None \<Rightarrow> [] | Some ty \<Rightarrow> [ty])"
    by (auto simp: List.map_filter_def split: option.splits)
  with snoc show ?case
    by (auto simp: step_type split: option.splits)
qed

lemma collect_type:
  assumes "system c = SNOMED_URI"
  shows "snd (collect os c) = last (semantic os # List.map_filter recovered_type (designations c))"
proof -
  have "collect os c =
      foldl (designation_step SNOMED_URI) ([strip (display c)], semantic os) (designations c)"
    using assms by (simp only: collect_def)
  then show ?thesis by (simp only: foldl_type snd_conv)
qed

lemma set_add_set: "set (set_add s syns) = insert s (set syns)"
  by (auto simp: set_add_def)

lemma step_synonyms_mono: "set (fst acc) \<subseteq> set (fst (designation_step sys acc d))"
  by (cases acc) (auto simp: set_add_set split: option.splits)

lemma foldl_synonyms_mono: "set (fst acc) \<subseteq> set (fst (foldl (designation_step sys) acc ds))"
proof (induction ds arbitrary: acc)
  case Nil
  show ?case by simp
next
  case (Cons d ds)
  show ?case using step_synonyms_mono[of acc sys d] Cons[of "designation_step sys acc d"]
    by auto
qed

lemma display_collected: "strip (display c) \<in> set (fst (collect os c))"
  using foldl_synonyms_mono[of "([strip (display c)], semantic os)" "system c" "designations c"]
  by (auto simp: collect_def)

lemma foreign_step: "use_system d \<noteq> SNOMED_URI \<Longrightarrow> designation_step sys acc d = acc"
  by (cases acc) simp

lemma foldl_filter_steps:
  "foldl (designation_step sys) acc (filter (\<lambda>d. use_system d = SNOMED_URI) ds)
   = foldl (designation_step sys) acc ds"
  by (induction ds arbitrary: acc) (simp_all add: foreign_step)

section \<open>Facts about the stores\<close>

lemma insert_record_cuisty: "cuisty_db (insert_record s r) = cuisty_db s @ [r]"
  by (simp add: insert_record_def Let_def)

lemma insert_record_ss:
  "ss_db (insert_record s r) = (if r_term r \<in> simstring_terms s then ss_db s else ss_db s @ [r_term r])"
  by (simp add: insert_record_def Let_def)

lemma insert_record_terms:
  "simstring_terms (insert_record s r) = insert (r_term r) (simstring_terms s)"
  by (auto simp add: insert_record_def Let_def)

lemma foldl_insert_record_cuisty:
  "cuisty_db (foldl insert_record s rs) = cuisty_db s @ rs"
  by (induction rs arbitrary: s) (simp_all add: insert_record_cuisty)

lemma foldl_insert_record_ss:
  assumes "simstring_terms s = set (ss_db s)" "distinct (ss_db s)"
  shows "simstring_terms (foldl insert_record s rs) = set (ss_db (foldl insert_record s rs))
       \<and> distinct (ss_db (foldl insert_record s rs))
       \<and> set (ss_db (foldl insert_record s rs)) = set (ss_db s) \<union> r_term ` set rs"
  using assms
proof (induction rs arbitrary: s)
  case Nil
  then show ?case by simp
next
  case (Cons r rs)
  have "simstring_terms (insert_record s r) = set (ss_db (insert_record s r))"
    "distinct (ss_db (insert_record s r))"
    using Cons.prems by (auto simp: insert_record_ss insert_record_terms)
  from Cons.IH[OF this] show ?case
    using Cons.prems by (auto simp: insert_record_ss)
qed

section \<open>Facts about the concrete surroundings\<close>

lemma lower_ascii_idem: "lower_ascii (lower_ascii s) = lower_ascii s"
  by (induction s) (auto simp: lower_ascii_def)

lemma bei_ascii: "\<forall>x\<in>set (str ''Bei ''). x < 128"
  by (simp add: str_def)

lemma unidecode_fragment_ascii: "\<forall>c\<in>set (unidecode_fragment s). c < 128"
proof (induction s)
  case Nil
  show ?case by (simp add: unidecode_fragment_def)
next
  case (Cons a s)
  have "unidecode_fragment (a # s) =
      (if a < 128 then [a] else if a = 21271 then str ''Bei '' else []) @ unidecode_fragment s"
    by (simp add: unidecode_fragment_def)
  moreover have "\<forall>c\<in>set (if a < 128 then [a] else if a = 21271 then str ''Bei '' else []). c < 128"
    using bei_ascii by (cases "a < 128"; cases "a = 21271") simp_all
  ultimately show ?case using Cons by (simp only: set_append) blast
qed

lemma unidecode_fragment_id: "\<forall>c\<in>set s. c < 128 \<Longrightarrow> unidecode_fragment s = s"
  by (induction s) (auto simp: unidecode_fragment_def)

lemma unidecode_fragment_idem: "unidecode_fragment (unidecode_fragment s) = unidecode_fragment s"
  by (rule unidecode_fragment_id) (rule unidecode_fragment_ascii)

section \<open>Facts about extract_from_fhir\<close>

declare page_loop.simps [simp del] offsets_from.simps [simp del]

lemma process_page_ok:
  assumes "unidecode_ok E os"
  shows "raised t = None \<Longrightarrow>
    requests (process_page E os cs t) = requests t
    \<and> concepts (process_page E os cs t) = concepts t @ cs
    \<and> raised (process_page E os cs t) = None"
proof (induction cs arbitrary: t)
  case Nil
  then show ?case by simp
next
  case (Cons c cs)
  from process_concept_ok[OF assms] obtain rs where "process_concept E os c = Inr rs" by blast
  with Cons show ?case by simp
qed

lemma p_offset_request_params: "p_offset (request_params os offset) = offset"
  by (simp add: request_params_def)

lemma fetch_page_ok:
  assumes "unidecode_ok E os" and "raised t = None" and "srv (request_params os offset) = Inr pg"
  shows "requests (fst (fetch_page E srv os offset t)) = requests t @ [request_params os offset]
    \<and> concepts (fst (fetch_page E srv os offset t)) = concepts t @ contains pg
    \<and> raised (fst (fetch_page E srv os offset t)) = None
    \<and> snd (fetch_page E srv os offset t) = Some pg"
  using assms(2,3) process_page_ok[OF assms(1), of "t\<lparr>requests := requests t @ [request_params os offset]\<rparr>" "contains pg"]
  by (simp add: fetch_page_def Let_def)

lemma page_loop_ok:
  "unidecode_ok E os \<Longrightarrow> \<forall>offset. \<exists>pg. srv (request_params os offset) = Inr pg \<Longrightarrow>
   raised t = None \<Longrightarrow>
    raised (page_loop E srv os n offset t) = None
    \<and> map p_offset (requests (page_loop E srv os n offset t))
        = map p_offset (requests t) @ offsets_from n offset
    \<and> concepts (page_loop E srv os n offset t)
        = concepts t @ concat (map (\<lambda>k. contains (projr (srv (request_params os k)))) (offsets_from n offset))"
proof (induction E srv os n offset t rule: page_loop.induct)
  case (1 E srv os number_found offset t)
  show ?case
  proof (cases "offset < number_found")
    case False
    then show ?thesis using "1.prems"(3)
      by (simp add: page_loop.simps[of _ _ _ number_found offset] offsets_from.simps[of number_found offset])
  next
    case True
    from "1.prems"(2) obtain pg where pg: "srv (request_params os offset) = Inr pg" by blast
    let ?t1 = "fst (fetch_page E srv os offset t)"
    note f = fetch_page_ok[where srv=srv and offset=offset, OF "1.prems"(1,3) pg]
    have r: "raised ?t1 = None" using f by simp
    from "1.IH"[OF True refl r "1.prems"(1,2) r]
    show ?thesis using True f pg
      by (simp add: page_loop.simps[of _ _ _ number_found offset] offsets_from.simps[of number_found offset]
            p_offset_request_params)
  qed
qed

lemma extract_ok:
  assumes "unidecode_ok E os" and "\<forall>offset. \<exists>pg. srv (request_params os offset) = Inr pg"
    and "srv (request_params os 0) = Inr pg0" and "total pg0 = Some n"
  shows "raised (extract_from_fhir E srv os) = None
    \<and> map p_offset (requests (extract_from_fhir E srv os)) = 0 # offsets_from n count
    \<and> concepts (extract_from_fhir E srv os)
        = contains pg0 @ concat (map (\<lambda>k. contains (projr (srv (request_params os k)))) (offsets_from n count))"
proof -
  let ?t1 = "fst (fetch_page E srv os 0 no_trace)"
  have t0: "raised no_trace = None" by (simp add: no_trace_def)
  note f = fetch_page_ok[where srv=srv and offset=0, OF assms(1) t0 assms(3)]
  obtain t1 x where fp: "fetch_page E srv os 0 no_trace = (t1, x)" by (cases "fetch_page E srv os 0 no_trace")
  with f have x: "x = Some pg0" "raised t1 = None" by simp_all
  have e: "extract_from_fhir E srv os = page_loop E srv os n count ?t1"
    using assms(4) by (simp add: extract_from_fhir_def fp x)
  have r: "raised ?t1 = None" using f by simp
  from page_loop_ok[OF assms(1,2) r, of n count] f show ?thesis
    by (simp add: e no_trace_def p_offset_request_params)
qed

lemma offsets_from_unfold:
  "offset < n \<Longrightarrow> offsets_from n offset = offset # offsets_from n (offset + count)"
  "\<not> offset < n \<Longrightarrow> offsets_from n offset = []"
  by (simp_all add: offsets_from.simps[of n offset])

lemma offsets_from_set:
  "set (offsets_from n offset) = {k. offset \<le> k \<and> k < n \<and> count dvd (k - offset)}"
proof (induction n offset rule: offsets_from.induct)
  case (1 n offset)
  show ?case
  proof (cases "offset < n")
    case False
    then show ?thesis by (auto simp: offsets_from_unfold)
  next
    case True
    have d: "count dvd (k - (offset + count)) \<longleftrightarrow> count dvd (k - offset)" for k
    proof -
      have "count dvd (k - offset) - count \<longleftrightarrow> count dvd (k - offset)"
        by (rule dvd_diff_left_iff) simp
      then show ?thesis by (simp only: diff_diff_eq)
    qed
    have far: "offset + count \<le> k" if "offset \<le> k" "k \<noteq> offset" "count dvd (k - offset)" for k
    proof -
      from that have "0 < k - offset" by simp
      with that(3) have "count \<le> k - offset" by (rule zdvd_imp_le)
      then show ?thesis by simp
    qed
    have "{k. offset \<le> k \<and> k < n \<and> count dvd (k - offset)}
        = insert offset {k. offset + count \<le> k \<and> k < n \<and> count dvd (k - (offset + count))}"
      (is "?L = ?R")
    proof (intro set_eqI iffI)
      fix k assume "k \<in> ?L"
      then show "k \<in> ?R" using far[of k] by (cases "k = offset") (simp_all add: d)
    next
      fix k assume "k \<in> ?R"
      moreover have "0 < count" by (simp add: count_def)
      ultimately show "k \<in> ?L" using True by (auto simp: d)
    qed
    with "1.IH"[OF True] True show ?thesis
      by (simp add: offsets_from_unfold)
  qed
qed

lemma offsets_from_sorted: "sorted_wrt (<) (offsets_from n offset)"
proof (induction n offset rule: offsets_from.induct)
  case (1 n offset)
  show ?case
  proof (cases "offset < n")
    case False
    then show ?thesis by (simp add: offsets_from_unfold)
  next
    case True
    have "\<forall>k\<in>set (offsets_from n (offset + count)). offset < k"
      by (simp add: offsets_from_set count_def)
    with "1.IH"[OF True] True show ?thesis
      by (simp add: offsets_from_unfold)
  qed
qed

lemma offsets_250: "offsets_from 250 count = [100, 200]"
  by (simp add: count_def offsets_from.simps[of 250 100] offsets_from.simps[of 250 200]
        offsets_from.simps[of 250 300])

lemma window_sum:
  "\<forall>offset pg. 0 \<le> offset \<longrightarrow> srv (request_params os offset) = Inr pg \<longrightarrow>
             int (length (contains pg)) = max 0 (min count (n - offset)) \<Longrightarrow>
   \<forall>offset. \<exists>pg. srv (request_params os offset) = Inr pg \<Longrightarrow>
   0 \<le> offset \<Longrightarrow>
    int (length (concat (map (\<lambda>k. contains (projr (srv (request_params os k)))) (offsets_from n offset))))
      = max 0 (n - offset)"
proof (induction n offset rule: offsets_from.induct)
  case (1 n offset)
  let ?pages = "\<lambda>ks. concat (map (\<lambda>k. contains (projr (srv (request_params os k)))) ks)"
  show ?case
  proof (cases "offset < n")
    case False
    then show ?thesis by (simp add: offsets_from_unfold)
  next
    case True
    from "1.prems"(2) obtain pg where pg: "srv (request_params os offset) = Inr pg" by blast
    have len: "int (length (contains pg)) = max 0 (min count (n - offset))"
      by (rule "1.prems"(1)[rule_format, OF "1.prems"(3) pg])
    have "0 \<le> offset + count" using "1.prems"(3) by (simp add: count_def)
    from "1.IH"[OF True "1.prems"(1,2) this]
    have rest: "int (length (?pages (offsets_from n (offset + count)))) = max 0 (n - (offset + count))" .
    have "?pages (offsets_from n offset) = contains pg @ ?pages (offsets_from n (offset + count))"
      using True pg by (simp add: offsets_from_unfold)
    then have "int (length (?pages (offsets_from n offset)))
        = max 0 (min count (n - offset)) + max 0 (n - (offset + count))"
      using len rest by (simp only: length_append of_nat_add)
    also have "\<dots> = max 0 (n - offset)"
      using True unfolding count_def by linarith
    finally show ?thesis .
  qed
qed

lemma offsets_from_count:
  "set (offsets_from number_found count) = {k. 0 < k \<and> k < number_found \<and> count dvd k}"
proof -
  have d: "count dvd (k - count) \<longleftrightarrow> count dvd k" for k
    by (rule dvd_diff_left_iff) simp
  have pos: "0 < count" by (simp add: count_def)
  have le: "count \<le> k" if "0 < k" "count dvd k" for k
    using that(2,1) by (rule zdvd_imp_le)
  show ?thesis
  proof (intro set_eqI iffI)
    fix k assume "k \<in> set (offsets_from number_found count)"
    then show "k \<in> {k. 0 < k \<and> k < number_found \<and> count dvd k}"
      using pos by (simp add: offsets_from_set d)
  next
    fix k assume "k \<in> {k. 0 < k \<and> k < number_found \<and> count dvd k}"
    then show "k \<in> set (offsets_from number_found count)"
      using le[of k] by (simp add: offsets_from_set d)
  qed
qed

section \<open>The claims\<close>

subsection \<open>C1\<close>

text \<open>
  C1 says that \<open>is_preferred\<close> is true exactly for the record whose synonym, before it is
  lower-cased or transliterated, equals the trimmed display.  The output loop assigns the
  normalized text to \<open>synonym\<close> and then compares \<open>synonym\<close> with \<open>preferred_name\<close>.  With
  \<open>lowercase\<close> set, the concept \<open>Heart attack\<close> gets three records and none of them is
  preferred, although the first comes from the display itself; and the concept \<open>flu\<close>
  with the synonym \<open>Flu\<close> gets two records that are both preferred.
\<close>

theorem preferred_after_lowercasing:
  "process_concept without_unidecode (options True False)
     (snomed_concept ''A1'' ''Heart attack''
        (Some [synonym_of ''Cardiac arrest '', fsn_of ''Myocardial infarction (disorder)'']))
   = Inr [rec ''heart attack'' ''A1'' ''disorder'' False,
          rec ''cardiac arrest'' ''A1'' ''disorder'' False,
          rec ''myocardial infarction'' ''A1'' ''disorder'' False]
   \<and> process_concept without_unidecode (options True False)
     (other_concept ''B2'' ''flu'' (Some [synonym_of ''Flu'']))
   = Inr [rec ''flu'' ''B2'' ''UNKNOWN'' True, rec ''flu'' ''B2'' ''UNKNOWN'' True]"
  by (simp add: text_eval data_eval concept_eval)

subsection \<open>C2\<close>

text \<open>
  C2, as amended: in a concept of the SNOMED system, a fully specified name whose value
  ends with no \<open>(T)\<close>, \<open>T\<close> in the vocabulary, changes neither the synonyms nor the
  semantic type; the records are those of the concept without that designation.
\<close>

theorem unmatched_fsn_skipped:
  assumes "system c = SNOMED_URI" and "use_system d = SNOMED_URI" and "use_code d = FSN_CODE"
    and "\<forall>ty\<in>set SNOMED_SEMANTIC_TYPES. \<not> endswith (val d) (str ''('' @ ty @ str '')'')"
  shows "designation_step (system c) (synonyms, semantic_type) d = (synonyms, semantic_type)
     \<and> process_concept E os (c\<lparr>designation := Some (pre @ d # post)\<rparr>)
       = process_concept E os (c\<lparr>designation := Some (pre @ post)\<rparr>)"
proof -
  have ne: "FSN_CODE \<noteq> SYNONYM_CODE" by (simp add: FSN_CODE_def SYNONYM_CODE_def str_def)
  have none: "scan_types (val d) SNOMED_SEMANTIC_TYPES = None"
    using assms(4) by (simp add: scan_types_None)
  have step: "designation_step (system c) acc d = acc" for acc
    using assms(1-3) ne none by (cases acc) simp
  show ?thesis
    by (simp add: step process_concept_def collect_def designations_def
          del: designation_step.simps)
qed

text \<open>
  C2 as stated fails.  The value \<open>Eruption of skin (skin finding)\<close> matches no entry, and
  only the record of the display is emitted.  The value \<open>Eruption(disorder)\<close> ends with
  no entry after a space and an opening parenthesis either, yet the scan, which looks for
  \<open>(disorder)\<close>, recovers the type.
\<close>

theorem unmatched_fsn_counterexample:
  "list_all (\<lambda>ty. \<not> endswith (val (fsn_of ''Eruption of skin (skin finding)'')) (str '' ('' @ ty @ str '')''))
      SNOMED_SEMANTIC_TYPES
   \<and> process_concept without_unidecode (options False False)
        (snomed_concept ''271807003'' ''Rash'' (Some [fsn_of ''Eruption of skin (skin finding)'']))
      = Inr [rec ''Rash'' ''271807003'' ''UNKNOWN'' True]
   \<and> val (fsn_of ''Eruption of skin (skin finding)'') \<notin> r_term ` set [rec ''Rash'' ''271807003'' ''UNKNOWN'' True]
   \<and> list_all (\<lambda>ty. \<not> endswith (val (fsn_of ''Eruption(disorder)'')) (str '' ('' @ ty @ str '')''))
      SNOMED_SEMANTIC_TYPES
   \<and> process_concept without_unidecode (options False False)
        (snomed_concept ''271807003'' ''Rash'' (Some [fsn_of ''Eruption(disorder)'']))
      = Inr [rec ''Rash'' ''271807003'' ''disorder'' True, rec ''Eruption'' ''271807003'' ''disorder'' False]"
  by (simp add: text_eval data_eval concept_eval)

theorem unmatched_fsn_skipped_witness:
  "process_concept without_unidecode (options False False)
     (snomed_concept ''271807003'' ''Rash''
        (Some [synonym_of ''Eruption'', fsn_of ''Eruption of skin (skin finding)'', synonym_of ''Skin rash '']))
   = Inr [rec ''Rash'' ''271807003'' ''UNKNOWN'' True, rec ''Eruption'' ''271807003'' ''UNKNOWN'' False,
          rec ''Skin rash'' ''271807003'' ''UNKNOWN'' False]"
proof -
  let ?d = "fsn_of ''Eruption of skin (skin finding)''"
  let ?c = "snomed_concept ''271807003'' ''Rash'' None"
  have 1: "system ?c = SNOMED_URI" "use_system ?d = SNOMED_URI" "use_code ?d = FSN_CODE"
    by (simp_all add: snomed_concept_def fsn_of_def)
  have 2: "\<forall>ty\<in>set SNOMED_SEMANTIC_TYPES. \<not> endswith (val ?d) (str ''('' @ ty @ str '')'')"
    by (simp add: text_eval data_eval)
  have 3: "?c\<lparr>designation := Some ds\<rparr> = snomed_concept ''271807003'' ''Rash'' (Some ds)" for ds
    by (simp add: snomed_concept_def)
  have 4: "process_concept without_unidecode (options False False)
     (snomed_concept ''271807003'' ''Rash'' (Some ([synonym_of ''Eruption''] @ [synonym_of ''Skin rash ''])))
   = Inr [rec ''Rash'' ''271807003'' ''UNKNOWN'' True, rec ''Eruption'' ''271807003'' ''UNKNOWN'' False,
          rec ''Skin rash'' ''271807003'' ''UNKNOWN'' False]"
    by (simp add: text_eval data_eval concept_eval)
  from unmatched_fsn_skipped[OF 1 2, of "[]" "[]" without_unidecode "options False False"
      "[synonym_of ''Eruption'']" "[synonym_of ''Skin rash '']"]
  show ?thesis unfolding 3 4 by simp
qed

subsection \<open>C3\<close>

text \<open>
  C3, as amended: a designation whose \<open>use_system\<close> is not the SNOMED URI is skipped,
  whatever its \<open>use_code\<close>: the loop leaves both variables as they are, and the records
  of a concept are those of the concept with only its SNOMED designations.
\<close>

theorem foreign_designations_skipped:
  "(use_system d \<noteq> SNOMED_URI \<longrightarrow>
      designation_step (system c) (synonyms, semantic_type) d = (synonyms, semantic_type))
   \<and> process_concept E os (c\<lparr>designation := Some ds\<rparr>)
     = process_concept E os (c\<lparr>designation := Some (filter (\<lambda>d. use_system d = SNOMED_URI) ds)\<rparr>)"
  by (simp add: process_concept_def collect_def designations_def foldl_filter_steps)

text \<open>
  C3 as stated fails: the trimmed value \<open>Influenza\<close> of a designation of another system
  is not among the terms emitted.
\<close>

theorem foreign_designations_counterexample:
  "use_system (foreign_of ''Influenza '') \<noteq> SNOMED_URI
   \<and> process_concept without_unidecode (options False False)
        (snomed_concept ''6142004'' ''Flu'' (Some [foreign_of ''Influenza '']))
      = Inr [rec ''Flu'' ''6142004'' ''UNKNOWN'' True]
   \<and> strip (val (foreign_of ''Influenza '')) \<notin> r_term ` set [rec ''Flu'' ''6142004'' ''UNKNOWN'' True]"
  by (simp add: text_eval data_eval concept_eval)

theorem foreign_designations_skipped_witness:
  "use_system (foreign_of ''Influenza '') \<noteq> SNOMED_URI
   \<and> designation_step SNOMED_URI ([str ''Flu''], str ''UNKNOWN'') (foreign_of ''Influenza '')
       = ([str ''Flu''], str ''UNKNOWN'')"
proof -
  have 1: "use_system (foreign_of ''Influenza '') \<noteq> SNOMED_URI" by (simp add: data_eval text_eval)
  have 2: "system (snomed_concept ''6142004'' ''Flu'' None) = SNOMED_URI" by (simp add: snomed_concept_def)
  from foreign_designations_skipped[of "foreign_of ''Influenza ''" "snomed_concept ''6142004'' ''Flu'' None"
      "[str ''Flu'']" "str ''UNKNOWN''"] 1 2
  show ?thesis by simp
qed

subsection \<open>C4\<close>

text \<open>
  C4, as amended: let a concept of the SNOMED system have a fully specified name whose
  value is \<open>x\<close> followed by a space and \<open>(ty)\<close>, \<open>ty\<close> in the vocabulary, and let no later
  designation recover another type.  Then every record of the concept carries \<open>ty\<close>, also
  those of synonyms met before the fully specified name, and the normalized form of the
  trimmed \<open>x\<close> is among the terms.
\<close>

theorem fsn_type_and_term:
  assumes "system c = SNOMED_URI" and "designation c = Some (pre @ d # post)"
    and "use_system d = SNOMED_URI" and "use_code d = FSN_CODE"
    and "val d = x @ str '' ('' @ ty @ str '')''" and "ty \<in> set SNOMED_SEMANTIC_TYPES"
    and "\<forall>d'\<in>set post. recovered_type d' = None \<or> recovered_type d' = Some ty"
    and "unidecode_ok E os"
  shows "\<exists>rs. process_concept E os c = Inr rs
            \<and> (\<forall>r\<in>set rs. r_stys r = [ty])
            \<and> (\<exists>r\<in>set rs. normalize E os (strip x) = Inr (r_term r))"
proof -
  let ?f = "designation_step SNOMED_URI"
  let ?a = "foldl ?f ([strip (display c)], semantic os) pre"
  have rt: "recovered_type d = Some ty"
    using assms(3-6) by (simp add: recovered_type_def spec_suffix_recognised)
  have post: "List.map_filter recovered_type post = replicate (length (List.map_filter recovered_type post)) ty"
    using assms(7)
  proof (induction post)
    case Nil
    show ?case by (simp add: List.map_filter_def)
  next
    case (Cons a post)
    then show ?case by (cases "recovered_type a") auto
  qed
  have mf: "List.map_filter recovered_type (pre @ d # post) =
      List.map_filter recovered_type pre @ ty # List.map_filter recovered_type post"
    using rt by (simp add: List.map_filter_def)
  have "last (ty # List.map_filter recovered_type post) = ty"
    by (subst post) simp
  then have "last (List.map_filter recovered_type (pre @ d # post)) = ty"
    by (simp add: mf)
  then have ty: "snd (collect os c) = ty"
    using assms(2) mf by (simp add: collect_type[OF assms(1)] designations_def)
  have "strip (drop_last (length ty + 2) (val d)) = strip x"
    by (simp only: assms(5) drop_last_suffix) (simp add: strip_append_space isspace_def)
  moreover have "scan_types (val d) SNOMED_SEMANTIC_TYPES = Some ty"
    by (simp only: assms(5) spec_suffix_recognised[OF assms(6)])
  ultimately have "strip x \<in> set (fst (?f ?a d))"
    using assms(3,4) codes_differ
    by (cases ?a) (simp add: set_add_set del: One_nat_def add_2_eq_Suc add_2_eq_Suc')
  then have "strip x \<in> set (fst (foldl ?f (?f ?a d) post))"
    using foldl_synonyms_mono by blast
  then have x: "strip x \<in> set (fst (collect os c))"
    using assms(1,2) by (simp add: collect_def designations_def)
  from normalize_ok[OF assms(8)] obtain t where t: "normalize E os (strip x) = Inr t" by blast
  show ?thesis
    using ty x t by (force simp: process_concept_ok[OF assms(8)])
qed

text \<open>
  C4 as stated fails on a concept with the names \<open>Myocardial infarction (disorder)\<close> and
  \<open>Chest pain (finding)\<close>, with \<open>lowercase\<close> set: every record carries \<open>finding\<close>, and
  the term emitted is \<open>myocardial infarction\<close>, in lower case.
\<close>

theorem fsn_type_and_term_counterexample:
  "system two_names = SNOMED_URI
   \<and> designation two_names = Some ([] @ fsn_of ''Myocardial infarction (disorder)'' # [fsn_of ''Chest pain (finding)''])
   \<and> val (fsn_of ''Myocardial infarction (disorder)'') = str ''Myocardial infarction'' @ str '' ('' @ str ''disorder'' @ str '')''
   \<and> str ''disorder'' \<in> set SNOMED_SEMANTIC_TYPES
   \<and> process_concept without_unidecode (options True False) two_names
       = Inr [rec ''heart attack'' ''22298006'' ''finding'' False,
              rec ''myocardial infarction'' ''22298006'' ''finding'' False,
              rec ''chest pain'' ''22298006'' ''finding'' False]
   \<and> r_stys (rec ''heart attack'' ''22298006'' ''finding'' False) \<noteq> [str ''disorder'']
   \<and> strip (str ''Myocardial infarction'') \<notin> r_term ` set [rec ''heart attack'' ''22298006'' ''finding'' False,
              rec ''myocardial infarction'' ''22298006'' ''finding'' False,
              rec ''chest pain'' ''22298006'' ''finding'' False]"
  by (simp add: two_names_def text_eval data_eval concept_eval)

theorem fsn_type_and_term_witness:
  "system two_names = SNOMED_URI
   \<and> designation two_names = Some ([fsn_of ''Myocardial infarction (disorder)''] @ fsn_of ''Chest pain (finding)'' # [])
   \<and> val (fsn_of ''Chest pain (finding)'') = str ''Chest pain'' @ str '' ('' @ str ''finding'' @ str '')''
   \<and> str ''finding'' \<in> set SNOMED_SEMANTIC_TYPES
   \<and> unidecode_ok without_unidecode (options True False)
   \<and> (\<exists>rs. process_concept without_unidecode (options True False) two_names = Inr rs
         \<and> (\<forall>r\<in>set rs. r_stys r = [str ''finding''])
         \<and> (\<exists>r\<in>set rs. r_term r = str ''chest pain''))"
proof -
  let ?d = "fsn_of ''Chest pain (finding)''"
  have 1: "system two_names = SNOMED_URI"
    by (simp add: two_names_def snomed_concept_def)
  have 2: "designation two_names = Some ([fsn_of ''Myocardial infarction (disorder)''] @ ?d # [])"
    by (simp add: two_names_def snomed_concept_def)
  have 3: "use_system ?d = SNOMED_URI" "use_code ?d = FSN_CODE"
    by (simp_all add: fsn_of_def)
  have 4: "val ?d = str ''Chest pain'' @ str '' ('' @ str ''finding'' @ str '')''"
    by (simp add: fsn_of_def str_def)
  have 5: "str ''finding'' \<in> set SNOMED_SEMANTIC_TYPES"
    by (simp add: SNOMED_SEMANTIC_TYPES_def str_def)
  have 6: "\<forall>d'\<in>set []. recovered_type d' = None \<or> recovered_type d' = Some (str ''finding'')"
    by simp
  have 7: "unidecode_ok without_unidecode (options True False)"
    by (simp add: unidecode_ok_def options_def)
  have 8: "normalize without_unidecode (options True False) (strip (str ''Chest pain'')) = Inr (str ''chest pain'')"
    by (simp add: text_eval data_eval concept_eval)
  from fsn_type_and_term[OF 1 2 3 4 5 6 7] show ?thesis
    using 1 2 4 5 7 unfolding 8 by auto
qed

subsection \<open>C5\<close>

text \<open>
  C5: when every request is answered and the first page reports the total
  \<open>number_found\<close>, the generator ends without an exception; the offsets it requests
  increase, and they are 0 and the positive multiples of the page size 100 below
  \<open>number_found\<close>, so that after the request at \<open>k\<close> the request at \<open>k + count\<close> is sent
  exactly when \<open>k + count < number_found\<close>.  For a total of 250 the requests are at 0,
  100 and 200.  When each page holds its full window, the number of concepts handed to
  \<open>process_concept\<close> is the total: 250 for a total of 250.
\<close>

theorem pagination:
  assumes "unidecode_ok E os"
    and "\<forall>offset. \<exists>pg. srv (request_params os offset) = Inr pg"
    and "srv (request_params os 0) = Inr pg0" and "total pg0 = Some number_found"
  shows "raised (extract_from_fhir E srv os) = None
    \<and> sorted_wrt (<) (map p_offset (requests (extract_from_fhir E srv os)))
    \<and> set (map p_offset (requests (extract_from_fhir E srv os)))
         = {0} \<union> {k. 0 < k \<and> k < number_found \<and> count dvd k}
    \<and> (\<forall>k\<in>set (map p_offset (requests (extract_from_fhir E srv os))).
          k + count \<in> set (map p_offset (requests (extract_from_fhir E srv os)))
            \<longleftrightarrow> k + count < number_found)
    \<and> (number_found = 250 \<longrightarrow>
          map p_offset (requests (extract_from_fhir E srv os)) = [0, 100, 200])
    \<and> ((\<forall>offset pg. 0 \<le> offset \<longrightarrow> srv (request_params os offset) = Inr pg \<longrightarrow>
            int (length (contains pg)) = max 0 (min count (number_found - offset)))
         \<longrightarrow> int (length (concepts (extract_from_fhir E srv os))) = max 0 number_found)"
proof -
  let ?t = "extract_from_fhir E srv os"
  let ?offs = "map p_offset (requests ?t)"
  let ?tail = "offsets_from number_found count"
  let ?pages = "concat (map (\<lambda>k. contains (projr (srv (request_params os k)))) ?tail)"
  note e = extract_ok[OF assms]
  have offs: "?offs = 0 # ?tail" using e by (rule conjunct2[THEN conjunct1])
  have cs: "concepts ?t = contains pg0 @ ?pages" using e by (rule conjunct2[THEN conjunct2])
  have 1: "raised ?t = None" using e by (rule conjunct1)
  have 2: "sorted_wrt (<) ?offs"
    unfolding offs using offsets_from_sorted[of number_found count]
    by (simp add: offsets_from_count)
  have 3: "set ?offs = {0} \<union> {k. 0 < k \<and> k < number_found \<and> count dvd k}"
    unfolding offs by (simp add: offsets_from_count)
  have 4: "\<forall>k\<in>set ?offs. k + count \<in> set ?offs \<longleftrightarrow> k + count < number_found"
  proof
    fix k assume "k \<in> set ?offs"
    then have "0 \<le> k" "count dvd k" unfolding 3 by auto
    moreover have "0 < count" by (simp add: count_def)
    ultimately show "k + count \<in> set ?offs \<longleftrightarrow> k + count < number_found"
      unfolding 3 by simp
  qed
  have 5: "number_found = 250 \<longrightarrow> ?offs = [0, 100, 200]"
    unfolding offs by (simp add: offsets_250)
  have 6: "int (length (concepts ?t)) = max 0 number_found"
    if w: "\<forall>offset pg. 0 \<le> offset \<longrightarrow> srv (request_params os offset) = Inr pg \<longrightarrow>
            int (length (contains pg)) = max 0 (min count (number_found - offset))"
  proof -
    have a: "int (length (contains pg0)) = max 0 (min count (number_found - 0))"
      by (rule w[rule_format, OF _ assms(3)]) simp
    have "(0::int) \<le> count" by (simp add: count_def)
    with w assms(2) have b: "int (length ?pages) = max 0 (number_found - count)"
      by (rule window_sum)
    have "int (length (concepts ?t)) = max 0 (min count (number_found - 0)) + max 0 (number_found - count)"
      using a b by (simp only: cs length_append of_nat_add)
    also have "\<dots> = max 0 number_found"
      unfolding count_def by linarith
    finally show ?thesis .
  qed
  have six: "(\<forall>offset pg. 0 \<le> offset \<longrightarrow> srv (request_params os offset) = Inr pg \<longrightarrow>
            int (length (contains pg)) = max 0 (min count (number_found - offset)))
         \<longrightarrow> int (length (concepts ?t)) = max 0 number_found" by (rule impI) (rule 6)
  show ?thesis
    by (intro conjI) (rule 1, rule 2, rule 3, rule 4, rule 5, rule six)
qed

theorem pagination_witness:
  "unidecode_ok without_unidecode (options False False)
   \<and> server_250 (request_params (options False False) 0)
       = Inr \<lparr>contains = map numbered [0 ..< 100], total = Some 250\<rparr>
   \<and> raised (extract_from_fhir without_unidecode server_250 (options False False)) = None
   \<and> map p_offset (requests (extract_from_fhir without_unidecode server_250 (options False False)))
       = [0, 100, 200]
   \<and> length (concepts (extract_from_fhir without_unidecode server_250 (options False False))) = 250"
proof -
  let ?E = without_unidecode and ?os = "options False False"
  let ?pg0 = "\<lparr>contains = map numbered [0 ..< 100], total = Some 250\<rparr>"
  have 1: "unidecode_ok ?E ?os"
    by (simp add: unidecode_ok_def options_def)
  have 2: "\<forall>offset. \<exists>pg. server_250 (request_params ?os offset) = Inr pg"
    by (simp add: server_250_def)
  have 3: "server_250 (request_params ?os 0) = Inr ?pg0"
    by (simp add: server_250_def request_params_def count_def)
  have 4: "total ?pg0 = Some 250" by simp
  have w: "\<forall>offset pg. 0 \<le> offset \<longrightarrow> server_250 (request_params ?os offset) = Inr pg \<longrightarrow>
            int (length (contains pg)) = max 0 (min count (250 - offset))"
  proof (intro allI impI)
    fix offset :: int and pg
    assume o: "0 \<le> offset" and "server_250 (request_params ?os offset) = Inr pg"
    then have "contains pg = map numbered [nat offset ..< min (nat (offset + 100)) 250]"
      by (auto simp: server_250_def request_params_def count_def)
    then have "int (length (contains pg)) = int (min (nat (offset + 100)) 250 - nat offset)"
      by simp
    also have "\<dots> = max 0 (min count (250 - offset))"
      using o unfolding count_def by linarith
    finally show "int (length (contains pg)) = max 0 (min count (250 - offset))" .
  qed
  note p = pagination[OF 1 2 3 4]
  from p have a: "raised (extract_from_fhir ?E server_250 ?os) = None" by (rule conjunct1)
  from p have b: "map p_offset (requests (extract_from_fhir ?E server_250 ?os)) = [0, 100, 200]"
    by simp
  from p w have "int (length (concepts (extract_from_fhir ?E server_250 ?os))) = max 0 250"
    by blast
  then have c: "length (concepts (extract_from_fhir ?E server_250 ?os)) = 250" by simp
  from 1 3 a b c show ?thesis by (intro conjI)
qed

subsection \<open>C6\<close>

text \<open>
  C6: after \<open>parse_and_encode_ngrams\<close> has consumed the records \<open>rs\<close>, the terms
  inserted into the similarity index are the terms inserted into the key-value store, no
  term was inserted into the similarity index twice, and the key-value store received
  every record, repeated terms included, in the order of the stream.
\<close>

theorem index_consistency:
  "set (ss_db (parse_and_encode_ngrams rs)) = set (map r_term (cuisty_db (parse_and_encode_ngrams rs)))
   \<and> distinct (ss_db (parse_and_encode_ngrams rs))
   \<and> cuisty_db (parse_and_encode_ngrams rs) = rs"
  using foldl_insert_record_ss[of no_stores rs] foldl_insert_record_cuisty[of no_stores rs]
  by (simp add: parse_and_encode_ngrams_def no_stores_def)

subsection \<open>C7\<close>

text \<open>
  C7, as amended: a concept without designations yields exactly one record; its term is
  the normalized trimmed display, its code the concept's and its semantic type the
  default.  With both flags off the term is the trimmed display and the record is
  preferred.
\<close>

theorem no_designations_one_record:
  assumes "designation c = None" and "unidecode_ok E os"
  shows "\<exists>r. process_concept E os c = Inr [r]
           \<and> normalize E os (strip (display c)) = Inr (r_term r)
           \<and> r_cui r = code c \<and> r_stys r = [semantic os]
           \<and> (\<not> lowercase os \<and> \<not> normalize_unicode os \<longrightarrow>
                r_term r = strip (display c) \<and> r_preferred r)"
proof -
  from normalize_ok[OF assms(2)] obtain t where t: "normalize E os (strip (display c)) = Inr t"
    by blast
  have "collect os c = ([strip (display c)], semantic os)"
    using assms(1) by (simp add: collect_def designations_def)
  with t show ?thesis
    by (auto simp: process_concept_def normalize_plain)
qed

text \<open>
  C7 as stated fails with \<open>lowercase\<close> set: the term of \<open>Flu\<close> is \<open>flu\<close>.
\<close>

theorem no_designations_counterexample:
  "designation (other_concept ''B2'' ''Flu'' None) = None
   \<and> process_concept without_unidecode (options True False) (other_concept ''B2'' ''Flu'' None)
       = Inr [rec ''flu'' ''B2'' ''UNKNOWN'' False]
   \<and> r_term (rec ''flu'' ''B2'' ''UNKNOWN'' False) \<noteq> strip (display (other_concept ''B2'' ''Flu'' None))
   \<and> \<not> r_preferred (rec ''flu'' ''B2'' ''UNKNOWN'' False)"
  by (simp add: text_eval data_eval concept_eval)

theorem no_designations_one_record_witness:
  "designation (other_concept ''B2'' '' Flu '' None) = None
   \<and> unidecode_ok without_unidecode (options False False)
   \<and> process_concept without_unidecode (options False False) (other_concept ''B2'' '' Flu '' None)
       = Inr [rec ''Flu'' ''B2'' ''UNKNOWN'' True]"
proof -
  let ?c = "other_concept ''B2'' '' Flu '' None"
  have 1: "designation ?c = None" by (simp add: data_eval)
  have 2: "unidecode_ok without_unidecode (options False False)"
    by (simp add: unidecode_ok_def data_eval)
  have 3: "strip (display ?c) = str ''Flu''" "code ?c = str ''B2''"
    "semantic (options False False) = str ''UNKNOWN''"
    "\<not> lowercase (options False False)" "\<not> normalize_unicode (options False False)"
    by (simp_all add: data_eval text_eval)
  from no_designations_one_record[OF 1 2] obtain r where
    "process_concept without_unidecode (options False False) ?c = Inr [r]"
    "r_term r = str ''Flu''" "r_cui r = str ''B2''" "r_stys r = [str ''UNKNOWN'']" "r_preferred r"
    using 3 by auto
  then show ?thesis using 1 2 by (simp add: rec_def)
qed

subsection \<open>C8\<close>

text \<open>
  C8, as amended: let lower-casing and transliteration each be idempotent.  Normalizing
  a normalized text \<open>t\<close> again, with the same flags, returns \<open>t\<close> when at most one flag is
  set, and with both flags set when lower-casing leaves \<open>t\<close> as it is.
\<close>

theorem normalize_idempotent_if:
  assumes "\<forall>s. lower E (lower E s) = lower E s"
    and "\<forall>u s. unidecode E = Some u \<longrightarrow> u (u s) = u s"
    and "unidecode_ok E os"
  shows "\<exists>t. normalize E os s = Inr t
           \<and> ((lowercase os \<and> normalize_unicode os \<longrightarrow> lower E t = t) \<longrightarrow> normalize E os t = Inr t)"
proof (cases "unidecode E")
  case None
  with assms(3) have "\<not> normalize_unicode os" by (simp add: unidecode_ok_def)
  with assms(1) show ?thesis by (simp add: normalize_def)
next
  case (Some u)
  with assms(2) have "u (u x) = u x" for x by simp
  with assms(1) Some show ?thesis by (simp add: normalize_def Let_def)
qed

text \<open>
  C8 as stated fails with both flags set: U+5317 has no lower case and is transliterated
  to \<open>Bei\<close> and a space, which the second pass lower-cases.
\<close>

theorem normalize_idempotent_counterexample:
  "normalize with_unidecode (options True True) [21271] = Inr (str ''Bei '')
   \<and> normalize with_unidecode (options True True) (str ''Bei '') = Inr (str ''bei '')
   \<and> str ''bei '' \<noteq> str ''Bei ''"
  by (simp add: text_eval data_eval concept_eval)

theorem normalize_idempotent_if_witness:
  "(\<forall>s. lower with_unidecode (lower with_unidecode s) = lower with_unidecode s)
   \<and> unidecode with_unidecode = Some unidecode_fragment
   \<and> (\<forall>s. unidecode_fragment (unidecode_fragment s) = unidecode_fragment s)
   \<and> unidecode_ok with_unidecode (options True True)
   \<and> normalize with_unidecode (options True True) (str ''Heart Attack'') = Inr (str ''heart attack'')
   \<and> normalize with_unidecode (options True True) (str ''heart attack'') = Inr (str ''heart attack'')"
proof -
  let ?E = with_unidecode and ?os = "options True True"
  have 1: "\<forall>s. lower ?E (lower ?E s) = lower ?E s"
    by (simp add: with_unidecode_def lower_ascii_idem)
  have 2: "\<forall>u s. unidecode ?E = Some u \<longrightarrow> u (u s) = u s"
    by (simp add: with_unidecode_def unidecode_fragment_idem)
  have 3: "unidecode_ok ?E ?os"
    by (simp add: unidecode_ok_def with_unidecode_def)
  have 4: "normalize ?E ?os (str ''Heart Attack'') = Inr (str ''heart attack'')"
    by (simp add: text_eval data_eval concept_eval)
  have 5: "lower ?E (str ''heart attack'') = str ''heart attack''"
    by (simp add: text_eval data_eval)
  from normalize_idempotent_if[OF 1 2 3, of "str ''Heart Attack''"] 4 5
  have "normalize ?E ?os (str ''heart attack'') = Inr (str ''heart attack'')" by simp
  with 1 3 4 show ?thesis
    by (simp add: with_unidecode_def unidecode_fragment_idem)
qed

subsection \<open>C9\<close>

text \<open>
  C9: if \<open>normalize_unicode\<close> is set and \<open>unidecode\<close> is not bound, \<open>main\<close> ends with
  \<open>exit(1)\<close> after the message that \<open>unidecode\<close> is needed, unless the prompt about the
  destination directory has already ended it; no request is sent, no concept is processed,
  nothing is inserted and no flag file is written.  The output loop itself would raise
  \<open>NameError\<close> rather than skip the transliteration.
\<close>

theorem unidecode_required:
  assumes "normalize_unicode os" and "unidecode E = None"
  shows "status (main E srv D os) = Some (if prepare_destination E D then UnidecodeNeeded else Aborting)
       \<and> requests (pipeline (main E srv D os)) = []
       \<and> concepts (pipeline (main E srv D os)) = []
       \<and> emitted (pipeline (main E srv D os)) = []
       \<and> ss_db (index (main E srv D os)) = []
       \<and> cuisty_db (index (main E srv D os)) = []
       \<and> flag_files (main E srv D os) = []
       \<and> normalize E os s = Inl NameError"
  using assms by (simp add: main_def no_trace_def no_stores_def normalize_def)

theorem unidecode_required_witness:
  "normalize_unicode (options False True) \<and> unidecode without_unidecode = None
   \<and> status (main without_unidecode server_250 prepared (options False True)) = Some UnidecodeNeeded
   \<and> requests (pipeline (main without_unidecode server_250 prepared (options False True))) = []
   \<and> cuisty_db (index (main without_unidecode server_250 prepared (options False True))) = []"
proof -
  have 1: "normalize_unicode (options False True)" by (simp add: options_def)
  have 2: "unidecode without_unidecode = None" by (simp add: without_unidecode_def)
  have 3: "prepare_destination without_unidecode prepared" by (simp add: prepare_destination_def prepared_def)
  show ?thesis using unidecode_required[OF 1 2, of server_250 prepared] 1 2 3 by simp
qed

subsection \<open>C10\<close>

text \<open>
  C10: in a concept of the SNOMED system, each fully specified name with a recognized
  suffix overwrites the semantic type recovered before it; when two or more are
  recognized, every record carries the type of the last of them in designation order.
\<close>

theorem last_fsn_type_wins:
  assumes "system c = SNOMED_URI" and "designation c = Some ds"
    and "List.map_filter recovered_type ds = tys" and "2 \<le> length tys"
    and "unidecode_ok E os"
  shows "(recovered_type d = Some ty \<longrightarrow>
            snd (designation_step (system c) (synonyms, semantic_type) d) = ty)
       \<and> (\<exists>rs. process_concept E os c = Inr rs \<and> rs \<noteq> [] \<and> (\<forall>r\<in>set rs. r_stys r = [last tys]))"
proof -
  from assms(4) obtain ty' tys' where tys: "tys = ty' # tys'" by (cases tys) auto
  have "snd (collect os c) = last tys"
    using assms(2,3) tys by (simp add: collect_type[OF assms(1)] designations_def)
  moreover have "fst (collect os c) \<noteq> []"
    using display_collected[of c os] by auto
  ultimately show ?thesis
    using assms(1) by (auto simp: process_concept_ok[OF assms(5)] step_type simp del: designation_step.simps)
qed

theorem last_fsn_type_wins_witness:
  "system two_names = SNOMED_URI
   \<and> List.map_filter recovered_type [fsn_of ''Myocardial infarction (disorder)'', fsn_of ''Chest pain (finding)'']
        = [str ''disorder'', str ''finding'']
   \<and> unidecode_ok with_unidecode (options False True)
   \<and> (\<exists>rs. process_concept with_unidecode (options False True) two_names = Inr rs \<and> rs \<noteq> []
          \<and> (\<forall>r\<in>set rs. r_stys r = [str ''finding'']))"
proof -
  let ?ds = "[fsn_of ''Myocardial infarction (disorder)'', fsn_of ''Chest pain (finding)'']"
  have 1: "system two_names = SNOMED_URI"
    by (simp add: two_names_def snomed_concept_def)
  have 2: "designation two_names = Some ?ds"
    by (simp add: two_names_def snomed_concept_def)
  have 3: "List.map_filter recovered_type ?ds = [str ''disorder'', str ''finding'']"
    by (simp add: recovered_type_def text_eval data_eval)
  have 4: "2 \<le> length [str ''disorder'', str ''finding'']" by simp
  have 5: "unidecode_ok with_unidecode (options False True)"
    by (simp add: unidecode_ok_def with_unidecode_def)
  from last_fsn_type_wins[OF 1 2 3 4 5] show ?thesis
    using 1 3 5 by simp
qed

end
